theory Spec2Isabelle
  imports Main
begin

section \<open>nullsmtpd: the handler and its start-up, as a shallow embedding\<close>

text \<open>
  The program is \<^verbatim>\<open>src/nullsmtpd/nullsmtpd.py\<close>: a class \<^verbatim>\<open>NullSMTPDHandler\<close> with a
  constructor and the coroutine \<^verbatim>\<open>handle_DATA\<close>, and a \<^verbatim>\<open>main\<close> that builds the handler
  and starts the listener. Everything the code does is an effect on the operating
  system (directory tests, \<^verbatim>\<open>mkdir\<close>, appending to files, reading the clock, logging),
  so the model threads an explicit \<open>world\<close> through every call and returns a raised
  exception as a value (\<open>Inl\<close>).

  A Python \<^verbatim>\<open>str\<close> is represented by the bytes of its UTF-8 encoding, as a HOL
  \<open>string\<close>. The characters the code looks at (\<^verbatim>\<open>.\<close> and \<^verbatim>\<open>/\<close>) are ASCII, and an ASCII
  byte never occurs inside a multi-byte UTF-8 sequence, so the tests on characters
  agree with those on code points.
\<close>

subsection \<open>Python values and exceptions\<close>

datatype pyval = PyNone | PyBool bool | PyInt int | PyStr string

text \<open>
  The exceptions the modelled code can raise. The \<^verbatim>\<open>OSError\<close> subclasses carry the path
  the failing call was given (Python's \<^verbatim>\<open>filename\<close> attribute).
\<close>

datatype py_error =
    SystemExit string
  | UnicodeDecodeError
  | FileExistsError string
  | FileNotFoundError string
  | NotADirectoryError string
  | IsADirectoryError string
  | PermissionError string

subsection \<open>Formatting\<close>

text \<open>\<^verbatim>\<open>"{:d}".format(n)\<close>: the decimal numeral of an integer, with a minus sign.\<close>

definition digit :: "nat \<Rightarrow> char" where
  "digit d = ''0123456789'' ! d"

fun digits :: "nat \<Rightarrow> string" where
  "digits n = (if n < 10 then [digit n] else digits (n div 10) @ [digit (n mod 10)])"

declare digits.simps [simp del]

definition fmt_d :: "int \<Rightarrow> string" where
  "fmt_d n = (if n < 0 then CHR ''-'' # digits (nat (- n)) else digits (nat n))"

text \<open>\<^verbatim>\<open>str(v)\<close>, which is what \<^verbatim>\<open>"{}".format(v)\<close> prints.\<close>

fun py_str :: "pyval \<Rightarrow> string" where
  "py_str PyNone = ''None''"
| "py_str (PyBool b) = (if b then ''True'' else ''False'')"
| "py_str (PyInt n) = fmt_d n"
| "py_str (PyStr s) = s"

text \<open>
  \<^verbatim>\<open>str(e)\<close> of an \<^verbatim>\<open>OSError\<close>: \<^verbatim>\<open>[Errno n] message: 'path'\<close>. The path is shown between
  single quotes; the escapes of \<^verbatim>\<open>repr\<close> are not modelled.
\<close>

definition os_error_str :: "nat \<Rightarrow> string \<Rightarrow> string \<Rightarrow> string" where
  "os_error_str errno msg p =
     ''[Errno '' @ digits errno @ ''] '' @ msg @ '': '' @ [CHR 0x27] @ p @ [CHR 0x27]"

fun error_str :: "py_error \<Rightarrow> string" where
  "error_str (SystemExit m) = m"
| "error_str UnicodeDecodeError = ''invalid utf-8''"
| "error_str (FileExistsError p) = os_error_str 17 ''File exists'' p"
| "error_str (FileNotFoundError p) = os_error_str 2 ''No such file or directory'' p"
| "error_str (NotADirectoryError p) = os_error_str 20 ''Not a directory'' p"
| "error_str (IsADirectoryError p) = os_error_str 21 ''Is a directory'' p"
| "error_str (PermissionError p) = os_error_str 13 ''Permission denied'' p"

text \<open>\<^verbatim>\<open>s.lstrip(".")\<close>: every leading dot is removed.\<close>

definition lstrip_dot :: "string \<Rightarrow> string" where
  "lstrip_dot s = dropWhile (\<lambda>c. c = CHR ''.'') s"

subsection \<open>Decoding the message body\<close>

text \<open>
  \<^verbatim>\<open>envelope.content.decode('utf-8')\<close>: the strict UTF-8 codec. It accepts the
  well-formed byte sequences of RFC 3629 (no overlong form, no surrogate, nothing above
  U+10FFFF) and raises \<^verbatim>\<open>UnicodeDecodeError\<close> on anything else. Since a \<^verbatim>\<open>str\<close> is
  represented by its UTF-8 bytes, decoding a well-formed input returns the bytes.
\<close>

definition byte_in :: "nat \<Rightarrow> nat \<Rightarrow> char \<Rightarrow> bool" where
  "byte_in lo hi c = (lo \<le> of_char c \<and> of_char c \<le> hi)"

definition is_cont :: "char \<Rightarrow> bool" where
  "is_cont c = byte_in 0x80 0xBF c"

text \<open>The length of the well-formed sequence the bytes start with, if there is one.\<close>

fun utf8_seq_len :: "char list \<Rightarrow> nat option" where
  "utf8_seq_len [] = None"
| "utf8_seq_len (b # bs) =
     (if byte_in 0x00 0x7F b then Some 1
      else if byte_in 0xC2 0xDF b then
        (case bs of c1 # _ \<Rightarrow> if is_cont c1 then Some 2 else None | _ \<Rightarrow> None)
      else if byte_in 0xE0 0xEF b then
        (case bs of
           c1 # c2 # _ \<Rightarrow>
             if (if of_char b = (0xE0::nat) then byte_in 0xA0 0xBF c1
                 else if of_char b = (0xED::nat) then byte_in 0x80 0x9F c1
                 else is_cont c1) \<and> is_cont c2
             then Some 3 else None
         | _ \<Rightarrow> None)
      else if byte_in 0xF0 0xF4 b then
        (case bs of
           c1 # c2 # c3 # _ \<Rightarrow>
             if (if of_char b = (0xF0::nat) then byte_in 0x90 0xBF c1
                 else if of_char b = (0xF4::nat) then byte_in 0x80 0x8F c1
                 else is_cont c1) \<and> is_cont c2 \<and> is_cont c3
             then Some 4 else None
         | _ \<Rightarrow> None)
      else None)"

lemma utf8_seq_len_pos: "utf8_seq_len bs = Some n \<Longrightarrow> 0 < n"
  by (cases bs) (auto split: if_splits list.splits)

function valid_utf8 :: "char list \<Rightarrow> bool" where
  "valid_utf8 bs =
     (if bs = [] then True
      else case utf8_seq_len bs of
             None \<Rightarrow> False
           | Some n \<Rightarrow> valid_utf8 (drop n bs))"
  by pat_completeness auto
termination
  by (relation "measure length") (auto dest: utf8_seq_len_pos)

declare valid_utf8.simps [simp del]

definition decode_utf8 :: "char list \<Rightarrow> py_error + string" where
  "decode_utf8 bs = (if valid_utf8 bs then Inr bs else Inl UnicodeDecodeError)"

subsection \<open>Paths\<close>

text \<open>
  \<^verbatim>\<open>os.path.join(a, *p)\<close> of \<^verbatim>\<open>posixpath\<close> (the program forks, so it runs on POSIX):
  \<^verbatim>\<open>
  path = a
  for b in p:
      if b.startswith(sep): path = b
      elif not path or path.endswith(sep): path += b
      else: path += sep + b
  \<close>
  A component that begins with the separator discards everything joined so far.
\<close>

definition startswith_sep :: "string \<Rightarrow> bool" where
  "startswith_sep s = (case s of [] \<Rightarrow> False | c # _ \<Rightarrow> c = CHR ''/'')"

definition endswith_sep :: "string \<Rightarrow> bool" where
  "endswith_sep s = (s \<noteq> [] \<and> last s = CHR ''/'')"

fun path_join :: "string \<Rightarrow> string list \<Rightarrow> string" where
  "path_join path [] = path"
| "path_join path (b # bs) =
     path_join (if startswith_sep b then b
                else if path = [] \<or> endswith_sep path then path @ b
                else path @ ''/'' @ b) bs"

text \<open>\<^verbatim>\<open>s.split("/")\<close>: the pieces between separators, empty pieces included.\<close>

fun split_sep :: "string \<Rightarrow> string list" where
  "split_sep [] = [[]]"
| "split_sep (c # cs) =
     (if c = CHR ''/'' then [] # split_sep cs
      else (case split_sep cs of p # ps \<Rightarrow> (c # p) # ps | [] \<Rightarrow> [[c]]))"

subsection \<open>The world: file system, clock and the trace of effects\<close>

text \<open>
  The file system maps the resolved path of an object, the list of its components from
  the root, to what is there. A regular file holds the text written to it. The text
  layer of \<^verbatim>\<open>open(path, 'a')\<close> encodes what it writes with the locale's encoding; the
  model keeps the text.
\<close>

datatype node = Dir | File string

datatype event =
    LogInfo string
  | LogError string
  | Mkdir string
  | Wrote string string
  | ListenerStarted string int

text \<open>
  \<open>clock\<close> is the sequence of values \<^verbatim>\<open>int(time.time())\<close> returns, one per call, and
  \<open>ticks\<close> the number of calls made so far. \<open>refuses\<close> stands for what the operating
  system denies for reasons outside the model (permissions): creating or opening the
  object at such a place raises \<^verbatim>\<open>PermissionError\<close>. \<open>trace\<close> is the effects so far,
  oldest first.
\<close>

record world =
  files :: "string list \<rightharpoonup> node"
  cwd :: "string list"
  refuses :: "string list \<Rightarrow> bool"
  clock :: "nat \<Rightarrow> int"
  ticks :: nat
  trace :: "event list"

text \<open>
  Path resolution: a path that begins with the separator starts at the root, any other
  at the working directory; empty components and \<^verbatim>\<open>.\<close> are skipped and \<^verbatim>\<open>..\<close> steps to the
  parent. Symbolic links are not modelled, and \<^verbatim>\<open>..\<close> is resolved without looking at the
  file system.
\<close>

definition walk :: "string list \<Rightarrow> string \<Rightarrow> string list" where
  "walk at c = (if c = [] \<or> c = ''.'' then at
                else if c = ''..'' then butlast at
                else at @ [c])"

definition resolve :: "world \<Rightarrow> string \<Rightarrow> string list" where
  "resolve w p = foldl walk (if startswith_sep p then [] else cwd w) (split_sep p)"

definition emit :: "event \<Rightarrow> world \<Rightarrow> world" where
  "emit e w = w\<lparr>trace := trace w @ [e]\<rparr>"

definition logger_info :: "string \<Rightarrow> world \<Rightarrow> world" where
  "logger_info msg w = emit (LogInfo msg) w"

definition logger_error :: "string \<Rightarrow> world \<Rightarrow> world" where
  "logger_error msg w = emit (LogError msg) w"

text \<open>\<^verbatim>\<open>int(time.time())\<close>: the next reading of the clock.\<close>

definition time_time :: "world \<Rightarrow> int \<times> world" where
  "time_time w = (clock w (ticks w), w\<lparr>ticks := Suc (ticks w)\<rparr>)"

text \<open>
  \<^verbatim>\<open>os.path.isdir(p)\<close> never raises: it is false for the empty path and for anything
  that is not an existing directory.
\<close>

definition os_path_isdir :: "world \<Rightarrow> string \<Rightarrow> bool" where
  "os_path_isdir w p = (p \<noteq> [] \<and> files w (resolve w p) = Some Dir)"

text \<open>
  \<^verbatim>\<open>os.mkdir(p)\<close> creates one directory. It raises when the path is empty, when
  something of that name exists already (a directory or a file), when the parent is
  missing or is not a directory, and when the system refuses.
\<close>

definition os_mkdir :: "string \<Rightarrow> world \<Rightarrow> py_error + world" where
  "os_mkdir p w =
     (let k = resolve w p in
      if p = [] then Inl (FileNotFoundError p)
      else if files w k \<noteq> None then Inl (FileExistsError p)
      else (case files w (butlast k) of
              None \<Rightarrow> Inl (FileNotFoundError p)
            | Some (File _) \<Rightarrow> Inl (NotADirectoryError p)
            | Some Dir \<Rightarrow>
                if refuses w k then Inl (PermissionError p)
                else Inr (emit (Mkdir p) (w\<lparr>files := (files w)(k \<mapsto> Dir)\<rparr>))))"

text \<open>
  \<^verbatim>\<open>open(p, 'a')\<close>: an existing regular file is opened as it is, a missing one is
  created empty in an existing parent directory; a directory cannot be opened for
  writing.
\<close>

definition open_append :: "string \<Rightarrow> world \<Rightarrow> py_error + world" where
  "open_append p w =
     (let k = resolve w p in
      if p = [] then Inl (FileNotFoundError p)
      else (case files w k of
              Some Dir \<Rightarrow> Inl (IsADirectoryError p)
            | Some (File _) \<Rightarrow> if refuses w k then Inl (PermissionError p) else Inr w
            | None \<Rightarrow>
                (case files w (butlast k) of
                   None \<Rightarrow> Inl (FileNotFoundError p)
                 | Some (File _) \<Rightarrow> Inl (NotADirectoryError p)
                 | Some Dir \<Rightarrow>
                     if refuses w k then Inl (PermissionError p)
                     else Inr (w\<lparr>files := (files w)(k \<mapsto> File [])\<rparr>))))"

text \<open>
  \<^verbatim>\<open>open_file.write(text)\<close> and the close at the end of the \<^verbatim>\<open>with\<close> block: the text
  goes to the end of the file opened at \<open>p\<close>. A failure of the write itself (a full
  disk) is not modelled.
\<close>

definition file_write :: "string \<Rightarrow> string \<Rightarrow> world \<Rightarrow> world" where
  "file_write p text w =
     (let k = resolve w p in
      emit (Wrote p text)
        (w\<lparr>files := (files w)(k \<mapsto> File ((case files w k of Some (File c) \<Rightarrow> c | _ \<Rightarrow> []) @ text))\<rparr>))"

subsection \<open>The handler\<close>

record handler =
  mail_dir :: string
  print_messages :: bool
  file_extension :: string

text \<open>
  \<^verbatim>\<open>NullSMTPDHandler.__init__(logger, mail_dir, output_messages, file_extension)\<close>.
  \<^verbatim>\<open>mail_dir\<close> and \<^verbatim>\<open>output_messages\<close> are any Python values, since the constructor tests
  them; in Python 3 \<^verbatim>\<open>IOError\<close> is \<^verbatim>\<open>OSError\<close>, so the \<^verbatim>\<open>except\<close> clause sees every
  failure of \<^verbatim>\<open>os.mkdir\<close>, logs it and raises it again.
\<close>

definition NullSMTPDHandler_init ::
  "pyval \<Rightarrow> pyval \<Rightarrow> string \<Rightarrow> world \<Rightarrow> (py_error + handler) \<times> world" where
  "NullSMTPDHandler_init mdir output_messages fext w =
     (case mdir of
        PyStr d \<Rightarrow>
          (case (if \<not> os_path_isdir w d then os_mkdir d w else Inr w) of
             Inl io_error \<Rightarrow> (Inl io_error, logger_error (error_str io_error) w)
           | Inr w1 \<Rightarrow>
               (let h = \<lparr>mail_dir = d,
                         print_messages = (output_messages = PyBool True),
                         file_extension = lstrip_dot fext\<rparr>;
                    w2 = logger_info (''Mail Directory: '' @ d) w1;
                    w3 = logger_info (''File Extension: .'' @ file_extension h) w2
                in (Inr h, w3)))
      | _ \<Rightarrow>
          (let msg = ''Invalid mail_dir variable: '' @ py_str mdir
           in (Inl (SystemExit msg), logger_error msg w)))"

record envelope =
  mail_from :: string
  rcpt_tos :: "string list"
  content :: "char list"

text \<open>The name of the file a message is stored in: \<^verbatim>\<open>"{:d}.{:s}.{:s}".format(...)\<close>.\<close>

definition mail_file :: "int \<Rightarrow> string \<Rightarrow> string \<Rightarrow> string" where
  "mail_file t sender ext = fmt_d t @ ''.'' @ sender @ ''.'' @ ext"

text \<open>
  The value of \<^verbatim>\<open>mail_path\<close> (line 58) for a recipient, when the clock read \<open>t\<close>:
  \<^verbatim>\<open>os.path.join(self.mail_dir, recipient, mail_file)\<close>.
\<close>

definition mail_path :: "handler \<Rightarrow> string \<Rightarrow> string \<Rightarrow> int \<Rightarrow> string" where
  "mail_path h sender recipient t =
     path_join (mail_dir h) [recipient, mail_file t sender (file_extension h)]"

text \<open>
  One round of the loop of \<^verbatim>\<open>handle_DATA\<close> (lines 56 to 65), for one recipient. An
  exception leaves the round, and the world is the one at the raise.
\<close>

definition persist_recipient ::
  "handler \<Rightarrow> string \<Rightarrow> string \<Rightarrow> string \<Rightarrow> world \<Rightarrow> (py_error + unit) \<times> world" where
  "persist_recipient h sender data recipient w =
     (let w1 = logger_info (''Mail received for '' @ recipient) w;
          (t, w2) = time_time w1;
          path = mail_path h sender recipient t;
          rcpt_dir = path_join (mail_dir h) [recipient]
      in case (if \<not> os_path_isdir w2 rcpt_dir then os_mkdir rcpt_dir w2 else Inr w2) of
           Inl e \<Rightarrow> (Inl e, w2)
         | Inr w3 \<Rightarrow>
             (case open_append path w3 of
                Inl e \<Rightarrow> (Inl e, w3)
              | Inr w4 \<Rightarrow>
                  (let w5 = file_write path (data @ [CHR 0x0A]) w4
                   in (Inr (), if print_messages h then logger_info data w5 else w5))))"

text \<open>The loop over \<^verbatim>\<open>rcpt_tos\<close>: the first exception ends it.\<close>

fun persist_all ::
  "handler \<Rightarrow> string \<Rightarrow> string \<Rightarrow> string list \<Rightarrow> world \<Rightarrow> (py_error + unit) \<times> world" where
  "persist_all h sender data [] w = (Inr (), w)"
| "persist_all h sender data (recipient # rest) w =
     (case persist_recipient h sender data recipient w of
        (Inl e, w') \<Rightarrow> (Inl e, w')
      | (Inr u, w') \<Rightarrow> persist_all h sender data rest w')"

text \<open>
  \<^verbatim>\<open>handle_DATA(self, _, __, envelope)\<close>: the body is decoded before anything else
  happens; the reply is the value returned after the loop.
\<close>

definition handle_DATA :: "handler \<Rightarrow> envelope \<Rightarrow> world \<Rightarrow> (py_error + string) \<times> world" where
  "handle_DATA h env w =
     (case decode_utf8 (content env) of
        Inl e \<Rightarrow> (Inl e, w)
      | Inr data \<Rightarrow>
          (let w1 = logger_info (''Incoming mail from '' @ mail_from env) w
           in case persist_all h (mail_from env) data (rcpt_tos env) w1 of
                (Inl e, w') \<Rightarrow> (Inl e, w')
              | (Inr u, w') \<Rightarrow> (Inr ''250 OK'', w')))"

subsection \<open>Start-up\<close>

text \<open>The parsed command line, as \<^verbatim>\<open>_parse_args\<close> returns it (every option has a default).\<close>

record args =
  no_fork :: bool
  host :: string
  port :: int
  args_mail_dir :: string
  args_file_extension :: string

text \<open>
  \<^verbatim>\<open>main()\<close> up to \<^verbatim>\<open>controller.start()\<close>; what follows is the event loop, which runs
  until it is interrupted. Two names the function uses come from modules that are not
  part of the source at hand, and are parameters here: \<^verbatim>\<open>configure_logging\<close> (module
  \<^verbatim>\<open>logger\<close>), which may fail and may touch the file system (a log file), and
  \<^verbatim>\<open>__version__\<close>. \<open>pid\<close> is the value \<^verbatim>\<open>os.fork()\<close> returns in the process that is
  followed: the parent sees the child's pid and leaves with \<^verbatim>\<open>SystemExit\<close>, the child
  sees 0 and goes on. The lines the logger itself writes are the \<open>LogInfo\<close> and
  \<open>LogError\<close> events of the trace. Reaching \<^verbatim>\<open>controller.start()\<close> is the event
  \<open>ListenerStarted\<close>.
\<close>

definition main ::
  "(string \<Rightarrow> bool \<Rightarrow> (string list \<rightharpoonup> node) \<Rightarrow> py_error + (string list \<rightharpoonup> node)) \<Rightarrow>
   string \<Rightarrow> int \<Rightarrow> args \<Rightarrow> world \<Rightarrow> (py_error + handler) \<times> world" where
  "main configure_logging version pid a w =
     (case (if \<not> os_path_isdir w (args_mail_dir a) then os_mkdir (args_mail_dir a) w else Inr w) of
        Inl e \<Rightarrow> (Inl e, w)
      | Inr w1 \<Rightarrow>
          if \<not> no_fork a \<and> pid \<noteq> 0 then (Inl (SystemExit ''Could not fork nullsmtpd''), w1)
          else
            (let output_messages = no_fork a
             in case configure_logging (args_mail_dir a) output_messages (files w1) of
                  Inl e \<Rightarrow> (Inl e, w1)
                | Inr fs \<Rightarrow>
                    (let w2 = w1\<lparr>files := fs\<rparr>;
                         w3 = logger_info (''Starting nullsmtpd '' @ version @ '' on '' @ host a
                                            @ '':'' @ fmt_d (port a)) w2
                     in case NullSMTPDHandler_init (PyStr (args_mail_dir a)) (PyBool output_messages)
                               (args_file_extension a) w3 of
                          (Inl e, w4) \<Rightarrow> (Inl e, w4)
                        | (Inr nullsmtpd, w4) \<Rightarrow>
                            (Inr nullsmtpd, emit (ListenerStarted (host a) (port a)) w4))))"

subsection \<open>Reading the trace\<close>

text \<open>The writes to files among some events, in order: path and text.\<close>

fun writes :: "event list \<Rightarrow> (string \<times> string) list" where
  "writes [] = []"
| "writes (Wrote p text # es) = (p, text) # writes es"
| "writes (_ # es) = writes es"

fun is_listener_started :: "event \<Rightarrow> bool" where
  "is_listener_started (ListenerStarted _ _) = True"
| "is_listener_started _ = False"

text \<open>The text of the regular file at a place; empty when there is none.\<close>

definition text_at :: "world \<Rightarrow> string list \<Rightarrow> string" where
  "text_at w k = (case files w k of Some (File c) \<Rightarrow> c | _ \<Rightarrow> [])"


subsection \<open>A small world to run the program in\<close>

text \<open>
  The root holds the mail directory \<^verbatim>\<open>/m\<close> and a directory \<^verbatim>\<open>/tmp\<close>; \<^verbatim>\<open>/m/a\<close> is a
  regular file. The clock stands at 5 seconds.
\<close>

definition demo_files :: "string list \<rightharpoonup> node" where
  "demo_files = [[] \<mapsto> Dir, [''m''] \<mapsto> Dir, [''m'', ''a''] \<mapsto> File ''x'', [''tmp''] \<mapsto> Dir]"

definition demo_world :: world where
  "demo_world = \<lparr>files = demo_files, cwd = [], refuses = (\<lambda>_. False), clock = (\<lambda>_. 5),
                  ticks = 0, trace = []\<rparr>"

definition demo_handler :: handler where
  "demo_handler = \<lparr>mail_dir = ''/m'', print_messages = False, file_extension = ''eml''\<rparr>"

text \<open>
  The text that a sequence of writes adds to the file at \<open>k\<close>: the texts written to a path
  that resolves to \<open>k\<close>, in the order of the writes.
\<close>

definition written_to :: "world \<Rightarrow> string list \<Rightarrow> (string \<times> string) list \<Rightarrow> string" where
  "written_to w k ws = concat (map snd (filter (\<lambda>(p, t). resolve w p = k) ws))"

definition demo_envelope :: envelope where
  "demo_envelope = \<lparr>mail_from = ''s'', rcpt_tos = [''b'', ''c''], content = ''hi''\<rparr>"

text \<open>
  Whether the place a path resolves to lies in or below the place a directory path
  resolves to.
\<close>

definition inside :: "world \<Rightarrow> string \<Rightarrow> string \<Rightarrow> bool" where
  "inside w dir p = (take (length (resolve w dir)) (resolve w p) = resolve w dir)"

definition demo_envelope_again :: envelope where
  "demo_envelope_again = \<lparr>mail_from = ''s'', rcpt_tos = [''c'', ''b'', ''c''], content = ''hi''\<rparr>"

definition demo_envelope_blocked :: envelope where
  "demo_envelope_blocked = \<lparr>mail_from = ''s'', rcpt_tos = [''a'', ''b''], content = ''hi''\<rparr>"

definition demo_envelope_collision :: envelope where
  "demo_envelope_collision = \<lparr>mail_from = ''s'', rcpt_tos = [''b'', ''a'', ''c''], content = ''hi''\<rparr>"

definition demo_envelope_escape :: envelope where
  "demo_envelope_escape = \<lparr>mail_from = ''s'', rcpt_tos = [''/tmp/x'', ''../tmp''], content = ''hi''\<rparr>"

section \<open>Properties\<close>

subsection \<open>Effects of the primitives\<close>

lemma writes_append: "writes (xs @ ys) = writes xs @ writes ys"
  by (induction xs rule: writes.induct) simp_all

lemma emit_fields:
  "files (emit e w) = files w" "cwd (emit e w) = cwd w" "refuses (emit e w) = refuses w"
  "clock (emit e w) = clock w" "ticks (emit e w) = ticks w" "trace (emit e w) = trace w @ [e]"
  by (simp_all add: emit_def)

lemma resolve_cong: "cwd w' = cwd w \<Longrightarrow> resolve w' p = resolve w p"
  by (simp add: resolve_def)

lemma text_at_emit: "text_at (emit e w) = text_at w"
  by (rule ext) (simp add: text_at_def emit_fields)

lemma os_mkdir_Inr:
  assumes "os_mkdir p w = Inr w'"
  shows "files w (resolve w p) = None" "files w' = (files w)(resolve w p \<mapsto> Dir)"
    "trace w' = trace w @ [Mkdir p]" "cwd w' = cwd w" "clock w' = clock w" "ticks w' = ticks w"
    "refuses w' = refuses w"
  using assms
  by (auto simp: os_mkdir_def Let_def emit_fields split: if_splits option.splits node.splits)

lemma os_mkdir_text_at:
  assumes "os_mkdir p w = Inr w'"
  shows "text_at w' = text_at w"
proof (rule ext)
  fix k
  show "text_at w' k = text_at w k"
    using os_mkdir_Inr(1,2)[OF assms] by (cases "k = resolve w p") (simp_all add: text_at_def)
qed

lemma os_mkdir_nonempty: "os_mkdir p w = Inr w' \<Longrightarrow> p \<noteq> []"
  by (cases "p = []") (simp_all add: os_mkdir_def Let_def)

lemma os_mkdir_isdir:
  assumes "os_mkdir p w = Inr w'"
  shows "os_path_isdir w' p"
proof -
  have "resolve w' p = resolve w p"
    by (rule resolve_cong) (rule os_mkdir_Inr(4)[OF assms])
  then show ?thesis
    using os_mkdir_Inr(2)[OF assms] os_mkdir_nonempty[OF assms]
    by (simp add: os_path_isdir_def)
qed

lemma open_append_Inr:
  assumes "open_append p w = Inr w'"
  shows "\<exists>c. files w' (resolve w p) = Some (File c)"
    "trace w' = trace w" "cwd w' = cwd w" "clock w' = clock w" "ticks w' = ticks w"
    "refuses w' = refuses w"
  using assms
  by (auto simp: open_append_def Let_def split: if_splits option.splits node.splits)

lemma open_append_text_at:
  assumes "open_append p w = Inr w'"
  shows "text_at w' = text_at w"
proof (rule ext)
  fix k
  show "text_at w' k = text_at w k"
    using assms
    by (cases "k = resolve w p")
       (auto simp: open_append_def Let_def text_at_def split: if_splits option.splits node.splits)
qed

lemma file_write_fields:
  "trace (file_write p t w) = trace w @ [Wrote p t]" "cwd (file_write p t w) = cwd w"
  "clock (file_write p t w) = clock w" "ticks (file_write p t w) = ticks w"
  "refuses (file_write p t w) = refuses w"
  "files (file_write p t w) = (files w)(resolve w p \<mapsto> File (text_at w (resolve w p) @ t))"
  by (simp_all add: file_write_def Let_def emit_fields text_at_def)

lemma text_at_file_write:
  "text_at (file_write p t w) k = text_at w k @ (if resolve w p = k then t else [])"
  by (simp add: text_at_def file_write_fields)

lemma time_time_fields:
  "fst (time_time w) = clock w (ticks w)"
  "files (snd (time_time w)) = files w" "cwd (snd (time_time w)) = cwd w"
  "clock (snd (time_time w)) = clock w" "ticks (snd (time_time w)) = Suc (ticks w)"
  "trace (snd (time_time w)) = trace w" "refuses (snd (time_time w)) = refuses w"
  by (simp_all add: time_time_def)

text \<open>The world of a round after its log line and its reading of the clock.\<close>

definition started :: "string \<Rightarrow> world \<Rightarrow> world" where
  "started r w = snd (time_time (logger_info (''Mail received for '' @ r) w))"

lemma started_fields:
  "files (started r w) = files w" "cwd (started r w) = cwd w" "clock (started r w) = clock w"
  "ticks (started r w) = Suc (ticks w)" "refuses (started r w) = refuses w"
  "trace (started r w) = trace w @ [LogInfo (''Mail received for '' @ r)]"
  "text_at (started r w) = text_at w"
  by (simp_all add: started_def time_time_fields logger_info_def emit_fields text_at_def fun_eq_iff)

lemma persist_recipient_unfold:
  "persist_recipient h s d r w =
    (case (if \<not> os_path_isdir (started r w) (path_join (mail_dir h) [r])
           then os_mkdir (path_join (mail_dir h) [r]) (started r w) else Inr (started r w)) of
           Inl e \<Rightarrow> (Inl e, started r w)
         | Inr w3 \<Rightarrow>
             (case open_append (mail_path h s r (clock w (ticks w))) w3 of
                Inl e \<Rightarrow> (Inl e, w3)
              | Inr w4 \<Rightarrow>
                  (Inr (), if print_messages h
                     then logger_info d (file_write (mail_path h s r (clock w (ticks w))) (d @ [CHR 0x0A]) w4)
                     else file_write (mail_path h s r (clock w (ticks w))) (d @ [CHR 0x0A]) w4)))"
proof -
  have t: "time_time (logger_info (''Mail received for '' @ r) w) = (clock w (ticks w), started r w)"
    by (simp add: started_def time_time_def logger_info_def emit_def)
  show ?thesis
    unfolding persist_recipient_def Let_def t prod.case ..
qed

subsection \<open>One round of the loop\<close>

lemma ensure_dir_Inr:
  assumes "(if \<not> os_path_isdir w p then os_mkdir p w else Inr w) = Inr w'"
  shows "text_at w' = text_at w" "writes (trace w') = writes (trace w)" "cwd w' = cwd w"
    "clock w' = clock w" "ticks w' = ticks w" "refuses w' = refuses w" "os_path_isdir w' p"
proof -
  consider (made) "\<not> os_path_isdir w p" "os_mkdir p w = Inr w'" | (there) "os_path_isdir w p" "w' = w"
    using assms by (cases "os_path_isdir w p") simp_all
  then have "text_at w' = text_at w \<and> writes (trace w') = writes (trace w) \<and> cwd w' = cwd w \<and>
    clock w' = clock w \<and> ticks w' = ticks w \<and> refuses w' = refuses w \<and> os_path_isdir w' p"
  proof cases
    case made
    from os_mkdir_Inr[OF made(2)] os_mkdir_text_at[OF made(2)] os_mkdir_isdir[OF made(2)]
    show ?thesis by (simp add: writes_append)
  next
    case there
    then show ?thesis by simp
  qed
  then show "text_at w' = text_at w" "writes (trace w') = writes (trace w)" "cwd w' = cwd w"
    "clock w' = clock w" "ticks w' = ticks w" "refuses w' = refuses w" "os_path_isdir w' p"
    by simp_all
qed

lemma ensure_dir_Inl:
  assumes "(if \<not> os_path_isdir w p then os_mkdir p w else Inr w) = Inl e"
  shows "\<not> os_path_isdir w p" "os_mkdir p w = Inl e"
  using assms by (cases "os_path_isdir w p"; simp)+

text \<open>The three ways a round can end.\<close>

lemma persist_recipient_cases:
  obtains
    (mkdir_failed) e where
      "(if \<not> os_path_isdir (started r w) (path_join (mail_dir h) [r])
        then os_mkdir (path_join (mail_dir h) [r]) (started r w) else Inr (started r w)) = Inl e"
      "persist_recipient h s d r w = (Inl e, started r w)"
  | (open_failed) e w3 where
      "(if \<not> os_path_isdir (started r w) (path_join (mail_dir h) [r])
        then os_mkdir (path_join (mail_dir h) [r]) (started r w) else Inr (started r w)) = Inr w3"
      "open_append (mail_path h s r (clock w (ticks w))) w3 = Inl e"
      "persist_recipient h s d r w = (Inl e, w3)"
  | (written) w3 w4 where
      "(if \<not> os_path_isdir (started r w) (path_join (mail_dir h) [r])
        then os_mkdir (path_join (mail_dir h) [r]) (started r w) else Inr (started r w)) = Inr w3"
      "open_append (mail_path h s r (clock w (ticks w))) w3 = Inr w4"
      "persist_recipient h s d r w =
        (Inr (), if print_messages h
           then logger_info d (file_write (mail_path h s r (clock w (ticks w))) (d @ [CHR 0x0A]) w4)
           else file_write (mail_path h s r (clock w (ticks w))) (d @ [CHR 0x0A]) w4)"
proof -
  let ?E = "if \<not> os_path_isdir (started r w) (path_join (mail_dir h) [r])
        then os_mkdir (path_join (mail_dir h) [r]) (started r w) else Inr (started r w)"
  show thesis
  proof (cases ?E)
    case (Inl e)
    then have "persist_recipient h s d r w = (Inl e, started r w)"
      by (simp only: persist_recipient_unfold sum.case)
    with Inl show thesis by (rule mkdir_failed)
  next
    case (Inr w3)
    show thesis
    proof (cases "open_append (mail_path h s r (clock w (ticks w))) w3")
      case (Inl e)
      with Inr have "persist_recipient h s d r w = (Inl e, w3)"
        by (simp only: persist_recipient_unfold sum.case)
      with Inr Inl show thesis by (rule open_failed)
    next
      case r2: (Inr w4)
      with Inr have "persist_recipient h s d r w =
        (Inr (), if print_messages h
           then logger_info d (file_write (mail_path h s r (clock w (ticks w))) (d @ [CHR 0x0A]) w4)
           else file_write (mail_path h s r (clock w (ticks w))) (d @ [CHR 0x0A]) w4)"
        by (simp only: persist_recipient_unfold sum.case)
      with Inr r2 show thesis by (rule written)
    qed
  qed
qed

lemma logger_info_fields:
  "files (logger_info m w) = files w" "cwd (logger_info m w) = cwd w"
  "refuses (logger_info m w) = refuses w" "clock (logger_info m w) = clock w"
  "ticks (logger_info m w) = ticks w" "writes (trace (logger_info m w)) = writes (trace w)"
  "text_at (logger_info m w) = text_at w"
  by (simp_all add: logger_info_def emit_fields writes_append text_at_emit)

lemma persist_recipient_Inr:
  assumes "persist_recipient h s d r w = (Inr u, w')"
  shows "writes (trace w') =
           writes (trace w) @ [(mail_path h s r (clock w (ticks w)), d @ [CHR 0x0A])]"
    and "ticks w' = Suc (ticks w)" and "clock w' = clock w" and "cwd w' = cwd w"
    and "refuses w' = refuses w"
    and "text_at w' k = text_at w k @
           (if resolve w (mail_path h s r (clock w (ticks w))) = k then d @ [CHR 0x0A] else [])"
    and "files w' (resolve w (mail_path h s r (clock w (ticks w)))) =
           Some (File (text_at w (resolve w (mail_path h s r (clock w (ticks w)))) @ d @ [CHR 0x0A]))"
proof -
  let ?P = "mail_path h s r (clock w (ticks w))"
  let ?nl = "[CHR 0x0A]"
  obtain w3 w4 where
    dir: "(if \<not> os_path_isdir (started r w) (path_join (mail_dir h) [r])
        then os_mkdir (path_join (mail_dir h) [r]) (started r w) else Inr (started r w)) = Inr w3"
    and opn: "open_append ?P w3 = Inr w4"
    and res: "w' = (if print_messages h then logger_info d (file_write ?P (d @ ?nl) w4)
                    else file_write ?P (d @ ?nl) w4)"
    using assms by (cases rule: persist_recipient_cases[of r w h s d]) simp_all
  note d = ensure_dir_Inr[OF dir]
  note p = open_append_Inr[OF opn] open_append_text_at[OF opn]
  let ?w5 = "file_write ?P (d @ ?nl) w4"
  have cw: "cwd w4 = cwd w" using d(3) p(3) by (simp add: started_fields)
  have rs: "resolve w4 ?P = resolve w ?P" by (rule resolve_cong[OF cw])
  have tx: "text_at w4 = text_at w" using d(1) p(7) by (simp add: started_fields)
  have w5: "writes (trace ?w5) = writes (trace w) @ [(?P, d @ ?nl)]" "ticks ?w5 = Suc (ticks w)"
    "clock ?w5 = clock w" "cwd ?w5 = cwd w" "refuses ?w5 = refuses w"
    using d p by (simp_all add: file_write_fields writes_append started_fields)
  have w5t: "text_at ?w5 k = text_at w k @ (if resolve w ?P = k then d @ ?nl else [])"
    by (simp only: text_at_file_write rs tx)
  have w5f: "files ?w5 (resolve w ?P) = Some (File (text_at w (resolve w ?P) @ d @ ?nl))"
    by (simp add: file_write_fields rs tx)
  show "writes (trace w') = writes (trace w) @ [(?P, d @ ?nl)]"
    using w5 by (simp add: res logger_info_fields)
  show "ticks w' = Suc (ticks w)" using w5 by (simp add: res logger_info_fields)
  show "clock w' = clock w" using w5 by (simp add: res logger_info_fields)
  show "cwd w' = cwd w" using w5 by (simp add: res logger_info_fields)
  show "refuses w' = refuses w" using w5 by (simp add: res logger_info_fields)
  show "text_at w' k = text_at w k @ (if resolve w ?P = k then d @ ?nl else [])"
    using w5t by (simp add: res logger_info_fields)
  show "files w' (resolve w ?P) = Some (File (text_at w (resolve w ?P) @ d @ ?nl))"
    using w5f by (simp add: res logger_info_fields)
qed

lemma persist_recipient_Inl:
  assumes "persist_recipient h s d r w = (Inl e, w')"
  shows "writes (trace w') = writes (trace w)"
    and "ticks w' = Suc (ticks w)" and "clock w' = clock w" and "cwd w' = cwd w"
    and "refuses w' = refuses w" and "text_at w' = text_at w"
proof -
  have "writes (trace w') = writes (trace w) \<and> ticks w' = Suc (ticks w) \<and> clock w' = clock w \<and>
    cwd w' = cwd w \<and> refuses w' = refuses w \<and> text_at w' = text_at w"
  proof (cases rule: persist_recipient_cases[of r w h s d])
    case (mkdir_failed e')
    with assms have "w' = started r w" by simp
    then show ?thesis by (simp add: started_fields writes_append)
  next
    case (open_failed e' w3)
    with assms have "w' = w3" by simp
    with ensure_dir_Inr[OF open_failed(1)] show ?thesis
      by (simp add: started_fields writes_append)
  next
    case (written w3 w4)
    with assms show ?thesis by simp
  qed
  then show "writes (trace w') = writes (trace w)"
    and "ticks w' = Suc (ticks w)" and "clock w' = clock w" and "cwd w' = cwd w"
    and "refuses w' = refuses w" and "text_at w' = text_at w"
    by simp_all
qed

subsection \<open>The loop over the recipients\<close>

lemma written_to_simps:
  "written_to w k [] = []"
  "written_to w k ((p, t) # ws) = (if resolve w p = k then t else []) @ written_to w k ws"
  by (simp_all add: written_to_def)

lemma written_to_cong:
  assumes "cwd w' = cwd w"
  shows "written_to w' k ws = written_to w k ws"
proof -
  have "resolve w' = resolve w"
    by (rule ext) (rule resolve_cong[OF assms])
  then show ?thesis
    unfolding written_to_def by (rule arg_cong)
qed

lemma persist_all_run:
  "persist_all h s d rs w = (res, w') \<Longrightarrow>
   \<exists>k. k \<le> length rs \<and> (isl res \<longleftrightarrow> k < length rs) \<and>
       writes (trace w') = writes (trace w) @
         map (\<lambda>i. (mail_path h s (rs ! i) (clock w (ticks w + i)), d @ [CHR 0x0A])) [0..<k] \<and>
       clock w' = clock w \<and> cwd w' = cwd w \<and>
       ticks w' = ticks w + (if isl res then Suc k else k) \<and>
       (\<forall>key. text_at w' key = text_at w key @ written_to w key
         (map (\<lambda>i. (mail_path h s (rs ! i) (clock w (ticks w + i)), d @ [CHR 0x0A])) [0..<k]))"
proof (induction rs arbitrary: w)
  case Nil
  then have "res = Inr ()" "w' = w" by simp_all
  then show ?case by (simp add: written_to_simps)
next
  case (Cons r rs)
  obtain r1 w1 where step: "persist_recipient h s d r w = (r1, w1)"
    by (cases "persist_recipient h s d r w")
  show ?case
  proof (cases r1)
    case (Inl e)
    with step Cons.prems have "res = Inl e" "w' = w1" by simp_all
    moreover note persist_recipient_Inl[OF step[unfolded Inl]]
    ultimately show ?thesis
      by (intro exI[of _ 0]) (simp add: written_to_simps)
  next
    case (Inr u)
    with step Cons.prems have rest: "persist_all h s d rs w1 = (res, w')" by simp
    note one = persist_recipient_Inr[OF step[unfolded Inr]]
    from Cons.IH[OF rest] obtain k where k: "k \<le> length rs" "isl res \<longleftrightarrow> k < length rs"
      "writes (trace w') = writes (trace w1) @
         map (\<lambda>i. (mail_path h s (rs ! i) (clock w1 (ticks w1 + i)), d @ [CHR 0x0A])) [0..<k]"
      "clock w' = clock w1" "cwd w' = cwd w1"
      "ticks w' = ticks w1 + (if isl res then Suc k else k)"
      "\<And>key. text_at w' key = text_at w1 key @ written_to w1 key
         (map (\<lambda>i. (mail_path h s (rs ! i) (clock w1 (ticks w1 + i)), d @ [CHR 0x0A])) [0..<k])"
      by blast
    let ?f = "\<lambda>i. (mail_path h s ((r # rs) ! i) (clock w (ticks w + i)), d @ [CHR 0x0A])"
    have shift: "map (\<lambda>i. (mail_path h s (rs ! i) (clock w1 (ticks w1 + i)), d @ [CHR 0x0A])) [0..<k]
      = map (\<lambda>i. ?f (Suc i)) [0..<k]"
      using one(2,3) by simp
    have unroll: "map ?f [0..<Suc k] = ?f 0 # map (\<lambda>i. ?f (Suc i)) [0..<k]"
      by (rule map_upt_Suc)
    have f0: "?f 0 = (mail_path h s r (clock w (ticks w)), d @ [CHR 0x0A])" by simp
    have wr: "writes (trace w') = writes (trace w) @ map ?f [0..<Suc k]"
      unfolding unroll f0 k(3) one(1) shift by simp
    have tx: "text_at w' key = text_at w key @ written_to w key (map ?f [0..<Suc k])" for key
      unfolding unroll f0 k(7) shift written_to_simps one(6) written_to_cong[OF one(4)] by simp
    show ?thesis
      using k(1,2,4,5,6) one(2,3,4) wr tx by (intro exI[of _ "Suc k"]) simp
  qed
qed


lemma persist_all_append:
  "persist_all h s d (pre @ post) w =
     (case persist_all h s d pre w of
        (Inl e, w1) \<Rightarrow> (Inl e, w1)
      | (Inr u, w1) \<Rightarrow> persist_all h s d post w1)"
proof (induction pre arbitrary: w)
  case Nil
  show ?case by simp
next
  case (Cons r pre)
  obtain r1 w1 where step: "persist_recipient h s d r w = (r1, w1)"
    by (cases "persist_recipient h s d r w")
  show ?case
  proof (cases r1)
    case (Inl e)
    with step show ?thesis by simp
  next
    case (Inr u)
    with step Cons.IH[of w1] show ?thesis by simp
  qed
qed

lemma persist_all_abort:
  assumes "persist_all h s d pre w = (Inr u, w1)"
    and "persist_recipient h s d r w1 = (Inl e, w2)"
  shows "persist_all h s d (pre @ r # post) w = (Inl e, w2)"
  using assms by (simp add: persist_all_append)

subsection \<open>A whole call of the handler\<close>

lemma handle_DATA_decoded:
  assumes "valid_utf8 (content env)"
  shows "handle_DATA h env w =
    (case persist_all h (mail_from env) (content env) (rcpt_tos env)
            (logger_info (''Incoming mail from '' @ mail_from env) w) of
       (Inl e, w') \<Rightarrow> (Inl e, w')
     | (Inr u, w') \<Rightarrow> (Inr ''250 OK'', w'))"
  using assms by (simp add: handle_DATA_def decode_utf8_def)

lemma handle_DATA_Inr_valid:
  assumes "handle_DATA h env w = (Inr reply, w')"
  shows "valid_utf8 (content env)"
proof (rule ccontr)
  assume "\<not> valid_utf8 (content env)"
  then have "handle_DATA h env w = (Inl UnicodeDecodeError, w)"
    by (simp add: handle_DATA_def decode_utf8_def)
  with assms show False by simp
qed

lemma handle_DATA_run:
  assumes run: "handle_DATA h env w = (res, w')"
  shows "\<exists>k. k \<le> length (rcpt_tos env) \<and>
       (res = Inr ''250 OK'' \<longleftrightarrow> valid_utf8 (content env) \<and> k = length (rcpt_tos env)) \<and>
       (isl res \<or> res = Inr ''250 OK'') \<and>
       writes (trace w') = writes (trace w) @
         map (\<lambda>i. (mail_path h (mail_from env) (rcpt_tos env ! i) (clock w (ticks w + i)),
                    content env @ [CHR 0x0A])) [0..<k] \<and>
       clock w' = clock w \<and> cwd w' = cwd w \<and>
       (res = Inr ''250 OK'' \<longrightarrow> ticks w' = ticks w + length (rcpt_tos env)) \<and>
       (\<forall>key. text_at w' key = text_at w key @ written_to w key
         (map (\<lambda>i. (mail_path h (mail_from env) (rcpt_tos env ! i) (clock w (ticks w + i)),
                    content env @ [CHR 0x0A])) [0..<k]))"
proof (cases "valid_utf8 (content env)")
  case False
  then have "handle_DATA h env w = (Inl UnicodeDecodeError, w)"
    by (simp add: handle_DATA_def decode_utf8_def)
  with run have "res = Inl UnicodeDecodeError" "w' = w" by simp_all
  with False show ?thesis
    by (intro exI[of _ 0]) (simp add: written_to_simps)
next
  case True
  let ?w1 = "logger_info (''Incoming mail from '' @ mail_from env) w"
  obtain r1 w1 where loop: "persist_all h (mail_from env) (content env) (rcpt_tos env) ?w1 = (r1, w1)"
    by (cases "persist_all h (mail_from env) (content env) (rcpt_tos env) ?w1")
  from persist_all_run[OF loop] obtain k where k: "k \<le> length (rcpt_tos env)"
    "isl r1 \<longleftrightarrow> k < length (rcpt_tos env)"
    "writes (trace w1) = writes (trace ?w1) @
         map (\<lambda>i. (mail_path h (mail_from env) (rcpt_tos env ! i) (clock ?w1 (ticks ?w1 + i)),
                    content env @ [CHR 0x0A])) [0..<k]"
    "clock w1 = clock ?w1" "cwd w1 = cwd ?w1"
    "ticks w1 = ticks ?w1 + (if isl r1 then Suc k else k)"
    "\<And>key. text_at w1 key = text_at ?w1 key @ written_to ?w1 key
         (map (\<lambda>i. (mail_path h (mail_from env) (rcpt_tos env ! i) (clock ?w1 (ticks ?w1 + i)),
                    content env @ [CHR 0x0A])) [0..<k])"
    by blast
  have res: "res = (case r1 of Inl e \<Rightarrow> Inl e | Inr u \<Rightarrow> Inr ''250 OK'')" "w' = w1"
    using run loop by (simp_all add: handle_DATA_decoded[OF True] split: sum.splits)
  have wt: "written_to ?w1 = written_to w"
    by (intro ext) (rule written_to_cong, simp add: logger_info_fields)
  have iff: "res = Inr ''250 OK'' \<longleftrightarrow> k = length (rcpt_tos env)"
    using k(1,2) res(1) by (cases r1) auto
  have alt: "isl res \<or> res = Inr ''250 OK''"
    using res(1) by (cases r1) simp_all
  have tick: "res = Inr ''250 OK'' \<longrightarrow> ticks w' = ticks w + length (rcpt_tos env)"
    using k(1,2,6) res by (cases r1) (auto simp: logger_info_fields)
  note wr = k(3)[unfolded logger_info_fields]
  note tx = k(7)[unfolded wt logger_info_fields]
  note fr = k(4,5)[unfolded logger_info_fields]
  show ?thesis
    using k(1) wr tx fr True iff alt tick
    by (intro exI[of _ k]) (simp add: res(2))
qed

subsection \<open>File names and paths\<close>

lemma digit_char: "d < 10 \<Longrightarrow> digit d \<in> set ''0123456789''"
  unfolding digit_def by (rule nth_mem) simp

lemma digit_plain:
  assumes "d < 10"
  shows "digit d \<noteq> CHR ''/'' \<and> digit d \<noteq> CHR ''.''"
proof -
  have "digit d \<in> set ''0123456789''" by (rule digit_char[OF assms])
  then show ?thesis by fastforce
qed

lemma digits_plain:
  "digits n \<noteq> [] \<and> (\<forall>c \<in> set (digits n). c \<noteq> CHR ''/'' \<and> c \<noteq> CHR ''.'')"
proof (induction n rule: digits.induct)
  case (1 n)
  show ?case
  proof (cases "n < 10")
    case True
    then have "digits n = [digit n]" by (simp add: digits.simps)
    with digit_plain[OF True] show ?thesis by simp
  next
    case False
    then have eq: "digits n = digits (n div 10) @ [digit (n mod 10)]"
      by (subst digits.simps) simp
    have "digit (n mod 10) \<noteq> CHR ''/'' \<and> digit (n mod 10) \<noteq> CHR ''.''"
      by (rule digit_plain) simp
    with 1[OF False] show ?thesis unfolding eq by simp
  qed
qed

lemma fmt_d_plain:
  "fmt_d t \<noteq> [] \<and> (\<forall>c \<in> set (fmt_d t). c \<noteq> CHR ''/'' \<and> c \<noteq> CHR ''.'')"
proof (cases "t < 0")
  case True
  then have "fmt_d t = CHR ''-'' # digits (nat (- t))" by (simp add: fmt_d_def)
  with digits_plain[of "nat (- t)"] show ?thesis by simp
next
  case False
  then have "fmt_d t = digits (nat t)" by (simp add: fmt_d_def)
  with digits_plain[of "nat t"] show ?thesis by simp
qed

lemma fmt_d_no_sep: "\<not> startswith_sep (fmt_d t @ rest)"
proof -
  obtain c cs where eq: "fmt_d t = c # cs"
    using fmt_d_plain[of t] by (cases "fmt_d t") simp_all
  then have "c \<noteq> CHR ''/''" using fmt_d_plain[of t] by simp
  then show ?thesis by (simp add: eq startswith_sep_def)
qed

lemma fmt_d_no_dot: "CHR ''.'' \<notin> set (fmt_d t)"
  using fmt_d_plain[of t] by blast

lemma mail_file_no_sep: "\<not> startswith_sep (mail_file t s e)"
  unfolding mail_file_def by (rule fmt_d_no_sep)

lemma path_join_one:
  "path_join a [b] =
     (if startswith_sep b then b else a @ (if a = [] \<or> endswith_sep a then [] else ''/'') @ b)"
  by simp

lemma path_join_two:
  assumes "\<not> startswith_sep c"
  shows "path_join a [b, c] =
    path_join a [b] @ (if path_join a [b] = [] \<or> endswith_sep (path_join a [b]) then [] else ''/'') @ c"
proof -
  have "path_join a [b, c] = path_join (path_join a [b]) [c]" by simp
  also have "\<dots> = path_join a [b] @
      (if path_join a [b] = [] \<or> endswith_sep (path_join a [b]) then [] else ''/'') @ c"
    using assms by (simp only: path_join_one if_False)
  finally show ?thesis .
qed

lemma mail_path_joined:
  "mail_path h s r t =
     path_join (mail_dir h) [r] @
       (if path_join (mail_dir h) [r] = [] \<or> endswith_sep (path_join (mail_dir h) [r]) then [] else ''/'')
       @ mail_file t s (file_extension h)"
  unfolding mail_path_def by (rule path_join_two) (rule mail_file_no_sep)

lemma mail_path_absolute:
  assumes "startswith_sep r"
  shows "mail_path h s r t =
           r @ (if endswith_sep r then [] else ''/'') @ mail_file t s (file_extension h)"
proof -
  have j: "path_join (mail_dir h) [r] = r" using assms by simp
  have "r \<noteq> []" using assms by (auto simp: startswith_sep_def)
  then show ?thesis unfolding mail_path_joined j by simp
qed

lemma mail_path_relative:
  assumes "\<not> startswith_sep r" "r \<noteq> []" "\<not> endswith_sep r"
    and "mail_dir h \<noteq> []" "\<not> endswith_sep (mail_dir h)"
  shows "mail_path h s r t =
           mail_dir h @ ''/'' @ r @ ''/'' @ fmt_d t @ ''.'' @ s @ ''.'' @ file_extension h"
proof -
  have j: "path_join (mail_dir h) [r] = mail_dir h @ ''/'' @ r" using assms by simp
  have e: "\<not> endswith_sep (mail_dir h @ ''/'' @ r)"
    using assms(2,3) by (simp add: endswith_sep_def)
  show ?thesis unfolding mail_path_joined j using e by (simp add: mail_file_def)
qed

subsection \<open>The body is decoded before any effect\<close>

text \<open>
  Claim C9. If the body of the envelope is not valid UTF-8, \<^verbatim>\<open>handle_DATA\<close> raises
  \<^verbatim>\<open>UnicodeDecodeError\<close> and the world is the one it was called in: no directory is
  made, no file is written, no line is logged.
\<close>

theorem handle_DATA_undecodable:
  assumes "\<not> valid_utf8 (content env)"
  shows "handle_DATA h env w = (Inl UnicodeDecodeError, w)"
proof -
  from assms have "decode_utf8 (content env) = Inl UnicodeDecodeError"
    by (simp add: decode_utf8_def)
  then show ?thesis
    by (simp add: handle_DATA_def)
qed

theorem handle_DATA_undecodable_witness:
  "\<not> valid_utf8 [CHR 0x68, CHR 0xFF] \<and>
   handle_DATA demo_handler \<lparr>mail_from = ''s'', rcpt_tos = [''b''], content = [CHR 0x68, CHR 0xFF]\<rparr>
     demo_world = (Inl UnicodeDecodeError, demo_world)"
proof -
  have bad: "\<not> valid_utf8 [CHR 0x68, CHR 0xFF]"
    by (simp add: valid_utf8.simps byte_in_def)
  then have "\<not> valid_utf8 (content \<lparr>mail_from = ''s'', rcpt_tos = [''b''], content = [CHR 0x68, CHR 0xFF]\<rparr>)"
    by simp
  from handle_DATA_undecodable [OF this, of demo_handler demo_world] bad
  show ?thesis by simp
qed

subsection \<open>Running the program in the small world\<close>

lemmas run_defs =
  handle_DATA_def decode_utf8_def valid_utf8.simps byte_in_def persist_recipient_def
  logger_info_def emit_def time_time_def mail_path_def mail_file_def fmt_d_def digits.simps
  digit_def os_path_isdir_def os_mkdir_def open_append_def file_write_def resolve_def walk_def
  startswith_sep_def endswith_sep_def Let_def demo_world_def demo_handler_def demo_files_def

lemma demo_reply: "fst (handle_DATA demo_handler demo_envelope demo_world) = Inr ''250 OK''"
  by (simp add: run_defs demo_envelope_def)

lemma demo_writes:
  "writes (trace (snd (handle_DATA demo_handler demo_envelope demo_world))) =
     [(''/m/b/5.s.eml'', ''hi'' @ [CHR 0x0A]), (''/m/c/5.s.eml'', ''hi'' @ [CHR 0x0A])]"
  by (simp add: run_defs demo_envelope_def)

lemma demo_run:
  "handle_DATA demo_handler demo_envelope demo_world =
     (Inr ''250 OK'', snd (handle_DATA demo_handler demo_envelope demo_world))"
  using demo_reply by (metis prod.collapse)

subsection \<open>One record for each recipient\<close>

text \<open>
  Claim C1. When \<^verbatim>\<open>handle_DATA\<close> returns its reply, the writes it has made are exactly one
  for each recipient of the envelope, in their order: the \<open>i\<close>-th at the path
  \<^verbatim>\<open>os.path.join(mail_dir, recipient, "<seconds>.<sender>.<extension>")\<close> with the seconds
  the clock showed in that round, and its text is the body followed by one newline.
\<close>

theorem handle_DATA_one_record_per_recipient:
  assumes "handle_DATA h env w = (Inr reply, w')"
  shows "writes (trace w') = writes (trace w) @
           map (\<lambda>i. (mail_path h (mail_from env) (rcpt_tos env ! i) (clock w (ticks w + i)),
                      content env @ [CHR 0x0A]))
               [0..<length (rcpt_tos env)]"
proof -
  from handle_DATA_run[OF assms] obtain k where
    k: "Inr reply = Inr ''250 OK'' \<longleftrightarrow> valid_utf8 (content env) \<and> k = length (rcpt_tos env)"
      "isl (Inr reply :: py_error + string) \<or> Inr reply = (Inr ''250 OK'' :: py_error + string)"
      "writes (trace w') = writes (trace w) @
         map (\<lambda>i. (mail_path h (mail_from env) (rcpt_tos env ! i) (clock w (ticks w + i)),
                    content env @ [CHR 0x0A])) [0..<k]"
    by blast
  from k(2) have "reply = ''250 OK''" by simp
  with k(1) have "k = length (rcpt_tos env)" by simp
  with k(3) show ?thesis by simp
qed

theorem handle_DATA_one_record_per_recipient_witness:
  "handle_DATA demo_handler demo_envelope demo_world =
     (Inr ''250 OK'', snd (handle_DATA demo_handler demo_envelope demo_world)) \<and>
   writes (trace (snd (handle_DATA demo_handler demo_envelope demo_world))) =
     [(''/m/b/5.s.eml'', ''hi'' @ [CHR 0x0A]), (''/m/c/5.s.eml'', ''hi'' @ [CHR 0x0A])]"
proof -
  have "writes (trace (snd (handle_DATA demo_handler demo_envelope demo_world))) =
      writes (trace demo_world) @
        map (\<lambda>i. (mail_path demo_handler (mail_from demo_envelope) (rcpt_tos demo_envelope ! i)
                     (clock demo_world (ticks demo_world + i)), content demo_envelope @ [CHR 0x0A]))
          [0..<length (rcpt_tos demo_envelope)]"
    by (rule handle_DATA_one_record_per_recipient[OF demo_run])
  also have "\<dots> = [(''/m/b/5.s.eml'', ''hi'' @ [CHR 0x0A]), (''/m/c/5.s.eml'', ''hi'' @ [CHR 0x0A])]"
    by (simp add: run_defs demo_envelope_def upt_rec)
  finally show ?thesis
    by (intro conjI demo_run)
qed

subsection \<open>The file extension\<close>

lemma init_Inr:
  assumes "NullSMTPDHandler_init mdir om fext w = (Inr h, w')"
  shows "\<exists>d. mdir = PyStr d \<and> mail_dir h = d" "file_extension h = lstrip_dot fext"
    "print_messages h = (om = PyBool True)"
proof -
  obtain d where d: "mdir = PyStr d"
    using assms by (cases mdir) (simp_all add: NullSMTPDHandler_init_def Let_def)
  have "h = \<lparr>mail_dir = d, print_messages = (om = PyBool True), file_extension = lstrip_dot fext\<rparr>"
    using assms unfolding d NullSMTPDHandler_init_def Let_def
    by (simp split: sum.splits)
  with d show "\<exists>d. mdir = PyStr d \<and> mail_dir h = d" "file_extension h = lstrip_dot fext"
    "print_messages h = (om = PyBool True)"
    by simp_all
qed

lemma lstrip_dot_no_dot: "lstrip_dot s \<noteq> CHR ''.'' # rest"
proof
  assume eq: "lstrip_dot s = CHR ''.'' # rest"
  then have "dropWhile (\<lambda>c. c = CHR ''.'') s \<noteq> []" by (simp add: lstrip_dot_def)
  from hd_dropWhile[OF this] eq show False by (simp add: lstrip_dot_def)
qed

lemma mail_file_seconds:
  "takeWhile (\<lambda>c. c \<noteq> CHR ''.'') (mail_file t s e) = fmt_d t"
proof -
  have "\<And>c. c \<in> set (fmt_d t) \<Longrightarrow> c \<noteq> CHR ''.''"
    using fmt_d_no_dot[of t] by blast
  then have "takeWhile (\<lambda>c. c \<noteq> CHR ''.'') (fmt_d t @ ''.'' @ s @ ''.'' @ e) =
      fmt_d t @ takeWhile (\<lambda>c. c \<noteq> CHR ''.'') (''.'' @ s @ ''.'' @ e)"
    by (rule takeWhile_append2)
  then show ?thesis by (simp add: mail_file_def)
qed

text \<open>
  Claim C10. The constructor stores the extension with every leading dot removed, so the
  stored extension never begins with a dot, and the name of every file is the seconds, a
  dot, the sender, a dot and the stored extension; the seconds are what stands before the
  first dot of the name.
\<close>

theorem init_strips_leading_dots:
  assumes "NullSMTPDHandler_init mdir om fext w = (Inr h, w')"
  shows "file_extension h = dropWhile (\<lambda>c. c = CHR ''.'') fext \<and>
         (\<forall>rest. file_extension h \<noteq> CHR ''.'' # rest) \<and>
         (\<forall>t s. mail_file t s (file_extension h) = fmt_d t @ ''.'' @ s @ ''.'' @ file_extension h \<and>
                takeWhile (\<lambda>c. c \<noteq> CHR ''.'') (mail_file t s (file_extension h)) = fmt_d t)"
proof -
  have e: "file_extension h = lstrip_dot fext" by (rule init_Inr(2)[OF assms])
  have a: "lstrip_dot fext = dropWhile (\<lambda>c. c = CHR ''.'') fext" by (simp add: lstrip_dot_def)
  have b: "\<forall>rest. lstrip_dot fext \<noteq> CHR ''.'' # rest" by (simp add: lstrip_dot_no_dot)
  have c: "\<forall>t s. mail_file t s (lstrip_dot fext) = fmt_d t @ ''.'' @ s @ ''.'' @ lstrip_dot fext \<and>
                takeWhile (\<lambda>c. c \<noteq> CHR ''.'') (mail_file t s (lstrip_dot fext)) = fmt_d t"
    by (simp add: mail_file_seconds) (simp add: mail_file_def)
  show ?thesis unfolding e using a b c by (intro conjI)
qed

theorem init_strips_leading_dots_witness:
  "fst (NullSMTPDHandler_init (PyStr ''/m'') (PyBool True) ''..eml'' demo_world) =
     Inr \<lparr>mail_dir = ''/m'', print_messages = True, file_extension = ''eml''\<rparr> \<and>
   mail_file 5 ''s'' ''eml'' = ''5.s.eml'' \<and>
   takeWhile (\<lambda>c. c \<noteq> CHR ''.'') ''5.s.eml'' = ''5''"
proof -
  let ?h = "\<lparr>mail_dir = ''/m'', print_messages = True, file_extension = ''eml''\<rparr>"
  let ?r = "NullSMTPDHandler_init (PyStr ''/m'') (PyBool True) ''..eml'' demo_world"
  have f: "fst ?r = Inr ?h"
    by (simp add: NullSMTPDHandler_init_def lstrip_dot_def run_defs)
  then have "?r = (Inr ?h, snd ?r)" by (metis prod.collapse)
  from init_strips_leading_dots[OF this]
  have "mail_file 5 ''s'' (file_extension ?h) = fmt_d 5 @ ''.'' @ ''s'' @ ''.'' @ file_extension ?h"
    "takeWhile (\<lambda>c. c \<noteq> CHR ''.'') (mail_file 5 ''s'' (file_extension ?h)) = fmt_d 5"
    by blast+
  moreover have "fmt_d 5 = ''5''" by (simp add: run_defs)
  ultimately show ?thesis using f by simp
qed

subsection \<open>The reply\<close>

text \<open>
  Claim C3. \<^verbatim>\<open>handle_DATA\<close> returns \<^verbatim>\<open>250 OK\<close> exactly when the body could be decoded
  and one write has been made for every recipient of the envelope; it never returns
  another reply, so a call in which a recipient's round fails ends in an exception.
\<close>

theorem success_reply_iff_all_written:
  "(fst (handle_DATA h env w) = Inr ''250 OK'' \<longleftrightarrow>
      valid_utf8 (content env) \<and>
      length (writes (trace (snd (handle_DATA h env w)))) =
        length (writes (trace w)) + length (rcpt_tos env)) \<and>
   (isl (fst (handle_DATA h env w)) \<or> fst (handle_DATA h env w) = Inr ''250 OK'')"
proof -
  obtain res w' where run: "handle_DATA h env w = (res, w')"
    by (cases "handle_DATA h env w")
  from handle_DATA_run[OF run] obtain k where
    k: "res = Inr ''250 OK'' \<longleftrightarrow> valid_utf8 (content env) \<and> k = length (rcpt_tos env)"
      "isl res \<or> res = Inr ''250 OK''"
      "writes (trace w') = writes (trace w) @
         map (\<lambda>i. (mail_path h (mail_from env) (rcpt_tos env ! i) (clock w (ticks w + i)),
                    content env @ [CHR 0x0A])) [0..<k]"
    by blast
  from k(3) have "length (writes (trace w')) = length (writes (trace w)) + k"
    by simp
  with k(1,2) show ?thesis
    unfolding run by simp
qed

theorem success_reply_iff_all_written_witness:
  "fst (handle_DATA demo_handler demo_envelope demo_world) = Inr ''250 OK'' \<and>
   valid_utf8 (content demo_envelope) \<and>
   length (writes (trace (snd (handle_DATA demo_handler demo_envelope demo_world)))) = 2"
proof -
  have "valid_utf8 (content demo_envelope) \<and>
      length (writes (trace (snd (handle_DATA demo_handler demo_envelope demo_world)))) =
        length (writes (trace demo_world)) + length (rcpt_tos demo_envelope)"
    using success_reply_iff_all_written[of demo_handler demo_envelope demo_world] demo_reply
    by blast
  then show ?thesis
    using demo_reply by (simp add: demo_envelope_def demo_world_def)
qed

subsection \<open>The order of the writes\<close>

text \<open>
  Claim C7. Whatever the outcome of a call, the writes it has made are those of the first
  \<open>k\<close> recipients of the envelope, in the order of \<^verbatim>\<open>rcpt_tos\<close>; and the text of every
  file after the call is its text before, followed by the texts written to it in the
  order of the writes.
\<close>

theorem writes_follow_recipient_order:
  assumes "handle_DATA h env w = (res, w')"
  shows "\<exists>k\<le>length (rcpt_tos env).
           writes (trace w') = writes (trace w) @
             map (\<lambda>i. (mail_path h (mail_from env) (rcpt_tos env ! i) (clock w (ticks w + i)),
                        content env @ [CHR 0x0A])) [0..<k] \<and>
           (\<forall>key. text_at w' key = text_at w key @ written_to w key
             (map (\<lambda>i. (mail_path h (mail_from env) (rcpt_tos env ! i) (clock w (ticks w + i)),
                        content env @ [CHR 0x0A])) [0..<k]))"
  using handle_DATA_run[OF assms] by blast

theorem writes_follow_recipient_order_witness:
  "writes (trace (snd (handle_DATA demo_handler demo_envelope_again demo_world))) =
     [(''/m/c/5.s.eml'', ''hi'' @ [CHR 0x0A]), (''/m/b/5.s.eml'', ''hi'' @ [CHR 0x0A]),
      (''/m/c/5.s.eml'', ''hi'' @ [CHR 0x0A])] \<and>
   text_at (snd (handle_DATA demo_handler demo_envelope_again demo_world)) [''m'', ''c'', ''5.s.eml''] =
     ''hi'' @ [CHR 0x0A] @ ''hi'' @ [CHR 0x0A] \<and>
   (\<exists>k\<le>length (rcpt_tos demo_envelope_again).
      writes (trace (snd (handle_DATA demo_handler demo_envelope_again demo_world))) =
      writes (trace demo_world) @
      map (\<lambda>i. (mail_path demo_handler (mail_from demo_envelope_again)
                   (rcpt_tos demo_envelope_again ! i) (clock demo_world (ticks demo_world + i)),
                 content demo_envelope_again @ [CHR 0x0A])) [0..<k])"
proof -
  let ?R = "handle_DATA demo_handler demo_envelope_again demo_world"
  have run: "?R = (fst ?R, snd ?R)" by simp
  have a: "writes (trace (snd ?R)) =
     [(''/m/c/5.s.eml'', ''hi'' @ [CHR 0x0A]), (''/m/b/5.s.eml'', ''hi'' @ [CHR 0x0A]),
      (''/m/c/5.s.eml'', ''hi'' @ [CHR 0x0A])]"
    by (simp add: run_defs demo_envelope_again_def)
  have b: "text_at (snd ?R) [''m'', ''c'', ''5.s.eml''] = ''hi'' @ [CHR 0x0A] @ ''hi'' @ [CHR 0x0A]"
    by (simp add: run_defs demo_envelope_again_def text_at_def)
  from writes_follow_recipient_order[OF run]
  have c: "\<exists>k\<le>length (rcpt_tos demo_envelope_again).
      writes (trace (snd ?R)) = writes (trace demo_world) @
      map (\<lambda>i. (mail_path demo_handler (mail_from demo_envelope_again)
                   (rcpt_tos demo_envelope_again ! i) (clock demo_world (ticks demo_world + i)),
                 content demo_envelope_again @ [CHR 0x0A])) [0..<k]"
    by blast
  from a b c show ?thesis by (intro conjI)
qed

subsection \<open>Failures\<close>

lemma os_mkdir_Inl_frame:
  assumes "os_mkdir p w = Inl e"
    and "files w' = files w" "cwd w' = cwd w" "refuses w' = refuses w"
  shows "os_mkdir p w' = Inl e"
proof -
  have r: "resolve w' p = resolve w p" by (rule resolve_cong[OF assms(3)])
  show ?thesis
    using assms(1) unfolding os_mkdir_def Let_def r assms(2,4)
    by (simp split: if_splits option.splits node.splits)
qed

lemma os_path_isdir_frame:
  assumes "files w' = files w" "cwd w' = cwd w"
  shows "os_path_isdir w' p = os_path_isdir w p"
  unfolding os_path_isdir_def resolve_cong[OF assms(2)] assms(1) ..

lemma persist_recipient_mkdir_failed:
  assumes "\<not> os_path_isdir w (path_join (mail_dir h) [r])"
    and "os_mkdir (path_join (mail_dir h) [r]) w = Inl e"
  shows "persist_recipient h s d r w = (Inl e, started r w)"
proof -
  have a: "\<not> os_path_isdir (started r w) (path_join (mail_dir h) [r])"
    using assms(1) by (simp add: os_path_isdir_frame[of "started r w" w] started_fields)
  have b: "os_mkdir (path_join (mail_dir h) [r]) (started r w) = Inl e"
    by (rule os_mkdir_Inl_frame[OF assms(2)]) (simp_all add: started_fields)
  show ?thesis
    unfolding persist_recipient_unfold using a b by simp
qed

lemma handle_DATA_abort:
  assumes "valid_utf8 (content env)" and "rcpt_tos env = pre @ r # post"
    and "persist_all h (mail_from env) (content env) pre
           (logger_info (''Incoming mail from '' @ mail_from env) w) = (Inr u, w1)"
    and "persist_recipient h (mail_from env) (content env) r w1 = (Inl e, w2)"
  shows "handle_DATA h env w = (Inl e, w2)"
  unfolding handle_DATA_decoded[OF assms(1)] assms(2) persist_all_abort[OF assms(3,4)]
  by simp

text \<open>
  Claim C2, as the code has it. \<^verbatim>\<open>handle_DATA\<close> has one outcome, not one for each
  recipient: when the round of a recipient raises, after the rounds of the recipients
  before it have gone through, the call ends with that exception, in the world of the
  raise, whatever recipients follow; they are not processed.
\<close>

theorem first_failure_ends_the_call:
  assumes "valid_utf8 (content env)" and "rcpt_tos env = pre @ r # post"
    and "persist_all h (mail_from env) (content env) pre
           (logger_info (''Incoming mail from '' @ mail_from env) w) = (Inr u, w1)"
    and "persist_recipient h (mail_from env) (content env) r w1 = (Inl e, w2)"
  shows "handle_DATA h env w = (Inl e, w2) \<and> writes (trace w2) = writes (trace w1)"
  using handle_DATA_abort[OF assms] persist_recipient_Inl(1)[OF assms(4)] by simp

text \<open>
  In the small world \<^verbatim>\<open>/m/a\<close> is a regular file. With the recipients \<^verbatim>\<open>a\<close> and \<^verbatim>\<open>b\<close>
  the call raises at \<^verbatim>\<open>a\<close>: there is no outcome for \<^verbatim>\<open>b\<close>, no line is logged for it
  and nothing is made for it, although \<^verbatim>\<open>b\<close> alone is accepted.
\<close>

theorem failure_prevents_later_recipients:
  "fst (handle_DATA demo_handler demo_envelope_blocked demo_world) = Inl (FileExistsError ''/m/a'') \<and>
   trace (snd (handle_DATA demo_handler demo_envelope_blocked demo_world)) =
     [LogInfo ''Incoming mail from s'', LogInfo ''Mail received for a''] \<and>
   files (snd (handle_DATA demo_handler demo_envelope_blocked demo_world)) [''m'', ''b''] = None \<and>
   fst (handle_DATA demo_handler (demo_envelope_blocked\<lparr>rcpt_tos := [''b'']\<rparr>) demo_world) =
     Inr ''250 OK''"
  by (simp add: run_defs demo_envelope_blocked_def)

theorem first_failure_ends_the_call_witness:
  "valid_utf8 (content demo_envelope_blocked) \<and>
   rcpt_tos demo_envelope_blocked = [] @ ''a'' # [''b''] \<and>
   fst (persist_recipient demo_handler ''s'' ''hi'' ''a'' (logger_info ''Incoming mail from s'' demo_world))
     = Inl (FileExistsError ''/m/a'') \<and>
   fst (handle_DATA demo_handler demo_envelope_blocked demo_world) = Inl (FileExistsError ''/m/a'')"
proof -
  let ?w1 = "logger_info (''Incoming mail from '' @ mail_from demo_envelope_blocked) demo_world"
  let ?S = "persist_recipient demo_handler (mail_from demo_envelope_blocked)
              (content demo_envelope_blocked) ''a'' ?w1"
  have v: "valid_utf8 (content demo_envelope_blocked)"
    by (simp add: demo_envelope_blocked_def valid_utf8.simps byte_in_def)
  have l: "rcpt_tos demo_envelope_blocked = [] @ ''a'' # [''b'']"
    by (simp add: demo_envelope_blocked_def)
  have p: "persist_all demo_handler (mail_from demo_envelope_blocked) (content demo_envelope_blocked) []
             ?w1 = (Inr (), ?w1)"
    by simp
  have f: "fst ?S = Inl (FileExistsError ''/m/a'')"
    by (simp add: run_defs demo_envelope_blocked_def)
  then have s: "?S = (Inl (FileExistsError ''/m/a''), snd ?S)" by (metis prod.collapse)
  from first_failure_ends_the_call[OF v l p s]
  have "fst (handle_DATA demo_handler demo_envelope_blocked demo_world) = Inl (FileExistsError ''/m/a'')"
    by simp
  with v l f show ?thesis by (simp add: demo_envelope_blocked_def)
qed

text \<open>
  Claim C6. When the directory of a recipient is not there and cannot be made, after the
  rounds of the recipients before it have gone through, the call ends with the exception
  of \<^verbatim>\<open>os.mkdir\<close>, and the file system is the one those earlier rounds left: no file is
  created or written for this recipient, and none for a later one.
\<close>

theorem mkdir_failure_leaves_no_file:
  assumes "valid_utf8 (content env)" and "rcpt_tos env = pre @ r # post"
    and "persist_all h (mail_from env) (content env) pre
           (logger_info (''Incoming mail from '' @ mail_from env) w) = (Inr u, w1)"
    and "\<not> os_path_isdir w1 (path_join (mail_dir h) [r])"
    and "os_mkdir (path_join (mail_dir h) [r]) w1 = Inl e"
  shows "fst (handle_DATA h env w) = Inl e \<and>
         files (snd (handle_DATA h env w)) = files w1 \<and>
         writes (trace (snd (handle_DATA h env w))) = writes (trace w1)"
proof -
  have "persist_recipient h (mail_from env) (content env) r w1 = (Inl e, started r w1)"
    by (rule persist_recipient_mkdir_failed[OF assms(4,5)])
  from handle_DATA_abort[OF assms(1,2,3) this]
  show ?thesis by (simp add: started_fields writes_append)
qed

theorem mkdir_failure_leaves_no_file_witness:
  "fst (handle_DATA demo_handler demo_envelope_collision demo_world) = Inl (FileExistsError ''/m/a'') \<and>
   files (snd (handle_DATA demo_handler demo_envelope_collision demo_world)) [''m'', ''a''] =
     Some (File ''x'') \<and>
   writes (trace (snd (handle_DATA demo_handler demo_envelope_collision demo_world))) =
     [(''/m/b/5.s.eml'', ''hi'' @ [CHR 0x0A])]"
proof -
  let ?w0 = "logger_info (''Incoming mail from '' @ mail_from demo_envelope_collision) demo_world"
  let ?P = "persist_all demo_handler (mail_from demo_envelope_collision)
              (content demo_envelope_collision) [''b''] ?w0"
  have v: "valid_utf8 (content demo_envelope_collision)"
    by (simp add: demo_envelope_collision_def valid_utf8.simps byte_in_def)
  have l: "rcpt_tos demo_envelope_collision = [''b''] @ ''a'' # [''c'']"
    by (simp add: demo_envelope_collision_def)
  have "fst ?P = Inr ()"
    by (simp add: run_defs demo_envelope_collision_def)
  then have p: "?P = (Inr (), snd ?P)" by (metis prod.collapse)
  have n: "\<not> os_path_isdir (snd ?P) (path_join (mail_dir demo_handler) [''a''])"
    by (simp add: run_defs demo_envelope_collision_def)
  have m: "os_mkdir (path_join (mail_dir demo_handler) [''a'']) (snd ?P) = Inl (FileExistsError ''/m/a'')"
    by (simp add: run_defs demo_envelope_collision_def)
  have fa: "files (snd ?P) [''m'', ''a''] = Some (File ''x'')"
    by (simp add: run_defs demo_envelope_collision_def)
  have wr: "writes (trace (snd ?P)) = [(''/m/b/5.s.eml'', ''hi'' @ [CHR 0x0A])]"
    by (simp add: run_defs demo_envelope_collision_def)
  from mkdir_failure_leaves_no_file[OF v l p n m] fa wr
  show ?thesis by simp
qed

subsection \<open>Two messages in the same second\<close>

lemma handle_DATA_single:
  assumes "handle_DATA h \<lparr>mail_from = s, rcpt_tos = [r], content = b\<rparr> w = (Inr rep, w')"
  shows "persist_recipient h s b r (logger_info (''Incoming mail from '' @ s) w) = (Inr (), w')"
proof -
  let ?env = "\<lparr>mail_from = s, rcpt_tos = [r], content = b\<rparr>"
  let ?w0 = "logger_info (''Incoming mail from '' @ s) w"
  have v: "valid_utf8 (content ?env)" by (rule handle_DATA_Inr_valid[OF assms])
  obtain r1 w1 where step: "persist_recipient h s b r ?w0 = (r1, w1)"
    by (cases "persist_recipient h s b r ?w0")
  show ?thesis
  proof (cases r1)
    case (Inl e)
    with step have "handle_DATA h ?env w = (Inl e, w1)"
      unfolding handle_DATA_decoded[OF v] by simp
    with assms show ?thesis by simp
  next
    case (Inr u)
    with step have "handle_DATA h ?env w = (Inr ''250 OK'', w1)"
      unfolding handle_DATA_decoded[OF v] by simp
    with assms have "w1 = w'" by simp
    with step Inr show ?thesis by simp
  qed
qed

lemma handle_DATA_single_effect:
  assumes "handle_DATA h \<lparr>mail_from = s, rcpt_tos = [r], content = b\<rparr> w = (Inr rep, w')"
  shows "writes (trace w') = writes (trace w) @ [(mail_path h s r (clock w (ticks w)), b @ [CHR 0x0A])]"
    and "ticks w' = Suc (ticks w)" and "clock w' = clock w" and "cwd w' = cwd w"
    and "files w' (resolve w (mail_path h s r (clock w (ticks w)))) =
           Some (File (text_at w (resolve w (mail_path h s r (clock w (ticks w)))) @ b @ [CHR 0x0A]))"
proof -
  let ?w0 = "logger_info (''Incoming mail from '' @ s) w"
  note one = persist_recipient_Inr[OF handle_DATA_single[OF assms]]
  have r: "resolve ?w0 = resolve w"
    by (rule ext) (rule resolve_cong, simp add: logger_info_fields)
  show "writes (trace w') = writes (trace w) @ [(mail_path h s r (clock w (ticks w)), b @ [CHR 0x0A])]"
    using one(1) by (simp only: logger_info_fields)
  show "ticks w' = Suc (ticks w)" using one(2) by (simp only: logger_info_fields)
  show "clock w' = clock w" using one(3) by (simp only: logger_info_fields)
  show "cwd w' = cwd w" using one(4) by (simp only: logger_info_fields)
  show "files w' (resolve w (mail_path h s r (clock w (ticks w)))) =
           Some (File (text_at w (resolve w (mail_path h s r (clock w (ticks w)))) @ b @ [CHR 0x0A]))"
    using one(7) by (simp only: logger_info_fields r)
qed

text \<open>
  Claim C4. Two calls, one after the other, with the same sender and the same single
  recipient, in which the clock reads the same second: both writes go to one path, and
  the file there holds what it held before, then the first body and a newline, then the
  second body and a newline.
\<close>

theorem same_second_appends_in_arrival_order:
  assumes "handle_DATA h \<lparr>mail_from = s, rcpt_tos = [r], content = b1\<rparr> w = (Inr rep1, w1)"
    and "handle_DATA h \<lparr>mail_from = s, rcpt_tos = [r], content = b2\<rparr> w1 = (Inr rep2, w2)"
    and "clock w (Suc (ticks w)) = clock w (ticks w)"
  shows "writes (trace w2) = writes (trace w) @
           [(mail_path h s r (clock w (ticks w)), b1 @ [CHR 0x0A]),
            (mail_path h s r (clock w (ticks w)), b2 @ [CHR 0x0A])] \<and>
         files w2 (resolve w (mail_path h s r (clock w (ticks w)))) =
           Some (File (text_at w (resolve w (mail_path h s r (clock w (ticks w))))
                         @ b1 @ [CHR 0x0A] @ b2 @ [CHR 0x0A]))"
proof -
  let ?P = "mail_path h s r (clock w (ticks w))"
  note a = handle_DATA_single_effect[OF assms(1)]
  note b = handle_DATA_single_effect[OF assms(2)]
  have t: "clock w1 (ticks w1) = clock w (ticks w)"
    using a(2,3) assms(3) by simp
  have r: "resolve w1 ?P = resolve w ?P" by (rule resolve_cong[OF a(4)])
  have x: "text_at w1 (resolve w ?P) = text_at w (resolve w ?P) @ b1 @ [CHR 0x0A]"
    using a(5) by (simp add: text_at_def)
  have "writes (trace w2) = writes (trace w) @ [(?P, b1 @ [CHR 0x0A]), (?P, b2 @ [CHR 0x0A])]"
    using b(1) a(1) unfolding t by simp
  moreover have "files w2 (resolve w ?P) =
      Some (File (text_at w (resolve w ?P) @ b1 @ [CHR 0x0A] @ b2 @ [CHR 0x0A]))"
    using b(5) unfolding t r x by simp
  ultimately show ?thesis by (intro conjI)
qed

theorem same_second_appends_in_arrival_order_witness:
  "fst (handle_DATA demo_handler \<lparr>mail_from = ''s'', rcpt_tos = [''b''], content = ''one''\<rparr> demo_world)
     = Inr ''250 OK'' \<and>
   fst (handle_DATA demo_handler \<lparr>mail_from = ''s'', rcpt_tos = [''b''], content = ''two''\<rparr>
     (snd (handle_DATA demo_handler \<lparr>mail_from = ''s'', rcpt_tos = [''b''], content = ''one''\<rparr> demo_world)))
     = Inr ''250 OK'' \<and>
   files (snd (handle_DATA demo_handler \<lparr>mail_from = ''s'', rcpt_tos = [''b''], content = ''two''\<rparr>
     (snd (handle_DATA demo_handler \<lparr>mail_from = ''s'', rcpt_tos = [''b''], content = ''one''\<rparr> demo_world))))
     [''m'', ''b'', ''5.s.eml''] = Some (File (''one'' @ [CHR 0x0A] @ ''two'' @ [CHR 0x0A]))"
proof -
  let ?e1 = "\<lparr>mail_from = ''s'', rcpt_tos = [''b''], content = ''one''\<rparr>"
  let ?e2 = "\<lparr>mail_from = ''s'', rcpt_tos = [''b''], content = ''two''\<rparr>"
  let ?w1 = "snd (handle_DATA demo_handler ?e1 demo_world)"
  let ?w2 = "snd (handle_DATA demo_handler ?e2 ?w1)"
  have f1: "fst (handle_DATA demo_handler ?e1 demo_world) = Inr ''250 OK''"
    by (simp add: run_defs)
  have f2: "fst (handle_DATA demo_handler ?e2 ?w1) = Inr ''250 OK''"
    by (simp add: run_defs)
  have c1: "handle_DATA demo_handler ?e1 demo_world = (Inr ''250 OK'', ?w1)"
    using f1 by (metis prod.collapse)
  have c2: "handle_DATA demo_handler ?e2 ?w1 = (Inr ''250 OK'', ?w2)"
    using f2 by (metis prod.collapse)
  have same: "clock demo_world (Suc (ticks demo_world)) = clock demo_world (ticks demo_world)"
    by (simp add: demo_world_def)
  have p: "resolve demo_world (mail_path demo_handler ''s'' ''b'' (clock demo_world (ticks demo_world)))
            = [''m'', ''b'', ''5.s.eml'']"
    by (simp add: run_defs)
  have t: "text_at demo_world [''m'', ''b'', ''5.s.eml''] = []"
    by (simp add: text_at_def demo_world_def demo_files_def)
  from same_second_appends_in_arrival_order[OF c1 c2 same]
  have "files ?w2 [''m'', ''b'', ''5.s.eml''] = Some (File (''one'' @ [CHR 0x0A] @ ''two'' @ [CHR 0x0A]))"
    unfolding p t by simp
  with f1 f2 show ?thesis by (intro conjI)
qed

subsection \<open>The recipient as a part of the path\<close>

text \<open>
  The mail directory is \<^verbatim>\<open>/m\<close>. The recipient \<^verbatim>\<open>/tmp/x\<close> begins with the separator, so
  the join drops the mail directory; the recipient \<^verbatim>\<open>../tmp\<close> steps out of it. Both are
  accepted, and both records are written outside the mail directory.
\<close>

theorem recipient_escapes_mail_dir:
  "fst (handle_DATA demo_handler demo_envelope_escape demo_world) = Inr ''250 OK'' \<and>
   writes (trace (snd (handle_DATA demo_handler demo_envelope_escape demo_world))) =
     [(''/tmp/x/5.s.eml'', ''hi'' @ [CHR 0x0A]), (''/m/../tmp/5.s.eml'', ''hi'' @ [CHR 0x0A])] \<and>
   files (snd (handle_DATA demo_handler demo_envelope_escape demo_world)) [''tmp'', ''x'', ''5.s.eml''] =
     Some (File (''hi'' @ [CHR 0x0A])) \<and>
   files (snd (handle_DATA demo_handler demo_envelope_escape demo_world)) [''tmp'', ''5.s.eml''] =
     Some (File (''hi'' @ [CHR 0x0A])) \<and>
   \<not> inside demo_world (mail_dir demo_handler) ''/tmp/x/5.s.eml'' \<and>
   \<not> inside demo_world (mail_dir demo_handler) ''/m/../tmp/5.s.eml''"
  by (simp add: run_defs demo_envelope_escape_def inside_def)

text \<open>
  Claim C5, as the code has it. The recipient goes into the path join as it is. A round
  that goes through has written at \<^verbatim>\<open>os.path.join(mail_dir, recipient, mail_file)\<close>: for
  a recipient that begins with the separator this is the recipient, a separator where it
  does not end with one, and the file name, without the mail directory; for any other
  recipient it is the mail directory, the recipient and the file name, joined by
  separators where they are missing, the recipient's own separators and dots included.
\<close>

theorem recipient_is_joined_unchecked:
  assumes "persist_recipient h s d r w = (Inr u, w')"
  shows "writes (trace w') =
           writes (trace w) @ [(mail_path h s r (clock w (ticks w)), d @ [CHR 0x0A])] \<and>
         (\<forall>t. mail_path h s r t = path_join (mail_dir h) [r, mail_file t s (file_extension h)]) \<and>
         (startswith_sep r \<longrightarrow>
            (\<forall>t. mail_path h s r t =
                   r @ (if endswith_sep r then [] else ''/'') @ mail_file t s (file_extension h))) \<and>
         (\<not> startswith_sep r \<longrightarrow>
            (\<forall>t. \<exists>sep1 sep2. sep1 \<in> {[], ''/''} \<and> sep2 \<in> {[], ''/''} \<and>
                   mail_path h s r t =
                     mail_dir h @ sep1 @ r @ sep2 @ mail_file t s (file_extension h)))"
proof -
  have a: "writes (trace w') =
      writes (trace w) @ [(mail_path h s r (clock w (ticks w)), d @ [CHR 0x0A])]"
    by (rule persist_recipient_Inr(1)[OF assms])
  have b: "\<forall>t. mail_path h s r t = path_join (mail_dir h) [r, mail_file t s (file_extension h)]"
    by (simp add: mail_path_def)
  have c: "startswith_sep r \<longrightarrow>
      (\<forall>t. mail_path h s r t =
             r @ (if endswith_sep r then [] else ''/'') @ mail_file t s (file_extension h))"
    using mail_path_absolute[of r h s] by blast
  have d: "\<not> startswith_sep r \<longrightarrow>
      (\<forall>t. \<exists>sep1 sep2. sep1 \<in> {[], ''/''} \<and> sep2 \<in> {[], ''/''} \<and>
             mail_path h s r t = mail_dir h @ sep1 @ r @ sep2 @ mail_file t s (file_extension h))"
  proof (intro impI allI)
    fix t
    assume rel: "\<not> startswith_sep r"
    let ?s1 = "if mail_dir h = [] \<or> endswith_sep (mail_dir h) then [] else ''/''"
    let ?dir = "mail_dir h @ ?s1 @ r"
    let ?s2 = "if ?dir = [] \<or> endswith_sep ?dir then [] else ''/''"
    have j: "path_join (mail_dir h) [r] = ?dir"
      using rel by (simp only: path_join_one if_False)
    have "mail_path h s r t = ?dir @ ?s2 @ mail_file t s (file_extension h)"
      unfolding mail_path_joined j ..
    then have "mail_path h s r t = mail_dir h @ ?s1 @ r @ ?s2 @ mail_file t s (file_extension h)"
      by simp
    moreover have "?s1 \<in> {[], ''/''}" "?s2 \<in> {[], ''/''}" by simp_all
    ultimately show "\<exists>sep1 sep2. sep1 \<in> {[], ''/''} \<and> sep2 \<in> {[], ''/''} \<and>
             mail_path h s r t = mail_dir h @ sep1 @ r @ sep2 @ mail_file t s (file_extension h)"
      by blast
  qed
  from a b c d show ?thesis by (intro conjI)
qed

theorem recipient_is_joined_unchecked_witness:
  "fst (persist_recipient demo_handler ''s'' ''hi'' ''/tmp/x'' demo_world) = Inr () \<and>
   startswith_sep ''/tmp/x'' \<and>
   mail_path demo_handler ''s'' ''/tmp/x'' 5 = ''/tmp/x/5.s.eml'' \<and>
   writes (trace (snd (persist_recipient demo_handler ''s'' ''hi'' ''/tmp/x'' demo_world))) =
     [(''/tmp/x/5.s.eml'', ''hi'' @ [CHR 0x0A])]"
proof -
  let ?S = "persist_recipient demo_handler ''s'' ''hi'' ''/tmp/x'' demo_world"
  have f: "fst ?S = Inr ()" by (simp add: run_defs)
  then have run: "?S = (Inr (), snd ?S)" by (metis prod.collapse)
  have abs: "startswith_sep ''/tmp/x''" by (simp add: startswith_sep_def)
  note inst = recipient_is_joined_unchecked[OF run]
  from inst abs have "mail_path demo_handler ''s'' ''/tmp/x'' 5 =
      ''/tmp/x'' @ (if endswith_sep ''/tmp/x'' then [] else ''/'')
        @ mail_file 5 ''s'' (file_extension demo_handler)"
    by blast
  also have "\<dots> = ''/tmp/x/5.s.eml''"
    by (simp add: run_defs)
  finally have p: "mail_path demo_handler ''s'' ''/tmp/x'' 5 = ''/tmp/x/5.s.eml''" .
  from inst have w0: "writes (trace (snd ?S)) = writes (trace demo_world) @
      [(mail_path demo_handler ''s'' ''/tmp/x'' (clock demo_world (ticks demo_world)), ''hi'' @ [CHR 0x0A])]"
    by blast
  have w: "writes (trace (snd ?S)) = [(''/tmp/x/5.s.eml'', ''hi'' @ [CHR 0x0A])]"
    using w0 p by (simp add: demo_world_def)
  from f abs p w show ?thesis by (intro conjI)
qed

end
